theory Spec2Isabelle
  imports Complex_Main "HOL-Library.Sublist"
begin

section \<open>The pattern-matching engine of the dashboard\<close>

text \<open>
  The component \<^verbatim>\<open>PatternRecognition\<close> lets the user draw a stroke and looks for the
  time series of the corpus that resemble it. This theory embeds the functions that decide
  the result: the normalisation of the stroke and of a series, \<^verbatim>\<open>resampleCurve\<close>,
  \<^verbatim>\<open>calculateDTWSimilarity\<close>, the ranking in \<^verbatim>\<open>searchForMatchingPatterns\<close>, the handler
  \<^verbatim>\<open>endDrawing\<close>, the filter that builds \<^verbatim>\<open>timeSeriesData\<close>, and the match quality that is
  displayed. Arrays are lists, objects are records, the state of the component is a record
  that the handlers take and return, and every loop is a fold over its index range or a
  recursive function with a termination proof. Counters and lengths are natural numbers.
\<close>

section \<open>JavaScript numbers\<close>

text \<open>
  The pattern-matching engine of \<^verbatim>\<open>PatternRecognition\<close> computes with JavaScript
  numbers. They are modelled as the real numbers extended by the three special values of
  IEEE 754 arithmetic: \<open>Infinity\<close>, \<open>-Infinity\<close> and \<open>NaN\<close>. Rounding and the negative
  zero are not part of the model. Everything that makes a special value appear or propagate
  (division by zero, \<open>Infinity - Infinity\<close>, \<open>0 * Infinity\<close>, comparisons with \<open>NaN\<close>) is.

  Overflow is modelled where it decides what the distance is: \<^verbatim>\<open>Math.pow\<close> yields
  \<open>Infinity\<close> beyond \<^verbatim>\<open>Number.MAX_VALUE\<close>. In \<^verbatim>\<open>calculateDTWSimilarity\<close> a difference of two
  doubles that overflows is squared next, and the square of a difference that does not fit
  overflows as well; the sums of the table add fewer than \<open>n + m\<close> costs, each of them
  infinite or at most the square root of \<^verbatim>\<open>Number.MAX_VALUE\<close>, which stays in range for
  arrays of any length JavaScript allows. So the model of the distance is \<open>Infinity\<close> where
  the program's is. Addition, subtraction, multiplication and division are exact on finite
  values; a theorem that concludes that the normalisation yields no special value therefore
  assumes that the ranges it subtracts fit a double.
\<close>

datatype jsnum = Fin real | PInf | NInf | NaN

instantiation jsnum :: "{plus, minus, times, inverse, ord}"
begin

fun plus_jsnum :: "jsnum \<Rightarrow> jsnum \<Rightarrow> jsnum" where
  "plus_jsnum (Fin a) (Fin b) = Fin (a + b)"
| "plus_jsnum NaN _ = NaN"
| "plus_jsnum _ NaN = NaN"
| "plus_jsnum PInf NInf = NaN"
| "plus_jsnum NInf PInf = NaN"
| "plus_jsnum PInf _ = PInf"
| "plus_jsnum _ PInf = PInf"
| "plus_jsnum NInf _ = NInf"
| "plus_jsnum _ NInf = NInf"

fun minus_jsnum :: "jsnum \<Rightarrow> jsnum \<Rightarrow> jsnum" where
  "minus_jsnum (Fin a) (Fin b) = Fin (a - b)"
| "minus_jsnum NaN _ = NaN"
| "minus_jsnum _ NaN = NaN"
| "minus_jsnum PInf PInf = NaN"
| "minus_jsnum NInf NInf = NaN"
| "minus_jsnum PInf _ = PInf"
| "minus_jsnum NInf _ = NInf"
| "minus_jsnum _ PInf = NInf"
| "minus_jsnum _ NInf = PInf"

fun times_jsnum :: "jsnum \<Rightarrow> jsnum \<Rightarrow> jsnum" where
  "times_jsnum (Fin a) (Fin b) = Fin (a * b)"
| "times_jsnum NaN _ = NaN"
| "times_jsnum _ NaN = NaN"
| "times_jsnum PInf (Fin b) = (if b = 0 then NaN else if 0 < b then PInf else NInf)"
| "times_jsnum NInf (Fin b) = (if b = 0 then NaN else if 0 < b then NInf else PInf)"
| "times_jsnum (Fin a) PInf = (if a = 0 then NaN else if 0 < a then PInf else NInf)"
| "times_jsnum (Fin a) NInf = (if a = 0 then NaN else if 0 < a then NInf else PInf)"
| "times_jsnum PInf PInf = PInf"
| "times_jsnum NInf NInf = PInf"
| "times_jsnum PInf NInf = NInf"
| "times_jsnum NInf PInf = NInf"

fun divide_jsnum :: "jsnum \<Rightarrow> jsnum \<Rightarrow> jsnum" where
  "divide_jsnum (Fin a) (Fin b) =
     (if b \<noteq> 0 then Fin (a / b)
      else if a = 0 then NaN else if 0 < a then PInf else NInf)"
| "divide_jsnum NaN _ = NaN"
| "divide_jsnum _ NaN = NaN"
| "divide_jsnum (Fin a) PInf = Fin 0"
| "divide_jsnum (Fin a) NInf = Fin 0"
| "divide_jsnum PInf (Fin b) = (if 0 \<le> b then PInf else NInf)"
| "divide_jsnum NInf (Fin b) = (if 0 \<le> b then NInf else PInf)"
| "divide_jsnum _ _ = NaN"

definition inverse_jsnum :: "jsnum \<Rightarrow> jsnum" where
  "inverse_jsnum a = divide (Fin 1) a"

text \<open>\<open>a < b\<close> and \<open>a \<le> b\<close> are JavaScript's \<^verbatim>\<open>a < b\<close> and \<^verbatim>\<open>a <= b\<close> (so
  \<^verbatim>\<open>a >= b\<close> is \<open>b \<le> a\<close> and \<^verbatim>\<open>a > b\<close> is \<open>b < a\<close>): every comparison with
  \<open>NaN\<close> is false.\<close>

fun less_jsnum :: "jsnum \<Rightarrow> jsnum \<Rightarrow> bool" where
  "less_jsnum (Fin a) (Fin b) = (a < b)"
| "less_jsnum NaN _ = False"
| "less_jsnum _ NaN = False"
| "less_jsnum _ NInf = False"
| "less_jsnum PInf _ = False"
| "less_jsnum NInf _ = True"
| "less_jsnum _ PInf = True"

fun less_eq_jsnum :: "jsnum \<Rightarrow> jsnum \<Rightarrow> bool" where
  "less_eq_jsnum (Fin a) (Fin b) = (a \<le> b)"
| "less_eq_jsnum NaN _ = False"
| "less_eq_jsnum _ NaN = False"
| "less_eq_jsnum NInf _ = True"
| "less_eq_jsnum _ PInf = True"
| "less_eq_jsnum _ NInf = False"
| "less_eq_jsnum PInf _ = False"

instance ..

end

text \<open>\<^verbatim>\<open>a || b\<close> on numbers: \<open>0\<close> and \<open>NaN\<close> are the falsy numbers.\<close>

definition js_or :: "jsnum \<Rightarrow> jsnum \<Rightarrow> jsnum" where
  "js_or a b = (if a = Fin 0 \<or> a = NaN then b else a)"

fun Math_sqrt :: "jsnum \<Rightarrow> jsnum" where
  "Math_sqrt (Fin a) = (if 0 \<le> a then Fin (sqrt a) else NaN)"
| "Math_sqrt PInf = PInf"
| "Math_sqrt NInf = NaN"
| "Math_sqrt NaN = NaN"

text \<open>\<^verbatim>\<open>Number.MAX_VALUE\<close>, the largest double, and the result of an operation whose
  exact result is \<open>r\<close>: infinite when \<open>r\<close> is beyond it.\<close>

definition MAX_VALUE :: real where
  "MAX_VALUE = 2 ^ 1024 - 2 ^ 971"

definition overflow :: "real \<Rightarrow> jsnum" where
  "overflow r = (if MAX_VALUE < r then PInf else if r < - MAX_VALUE then NInf else Fin r)"

text \<open>\<^verbatim>\<open>Math.pow(v, k)\<close> for a natural exponent \<open>k\<close> (the engine only squares).\<close>

fun Math_pow :: "jsnum \<Rightarrow> nat \<Rightarrow> jsnum" where
  "Math_pow (Fin a) k = overflow (a ^ k)"
| "Math_pow v 0 = Fin 1"
| "Math_pow NaN k = NaN"
| "Math_pow PInf k = PInf"
| "Math_pow NInf k = (if even k then PInf else NInf)"

text \<open>\<^verbatim>\<open>Math.min(...vs)\<close> and \<^verbatim>\<open>Math.max(...vs)\<close>: \<open>Infinity\<close> and \<open>-Infinity\<close> on no
  argument, \<open>NaN\<close> as soon as one argument is \<open>NaN\<close>.\<close>

definition min2 :: "jsnum \<Rightarrow> jsnum \<Rightarrow> jsnum" where
  "min2 a b = (if a = NaN \<or> b = NaN then NaN else if b < a then b else a)"

definition max2 :: "jsnum \<Rightarrow> jsnum \<Rightarrow> jsnum" where
  "max2 a b = (if a = NaN \<or> b = NaN then NaN else if a < b then b else a)"

definition Math_min :: "jsnum list \<Rightarrow> jsnum" where
  "Math_min vs = foldl min2 PInf vs"

definition Math_max :: "jsnum list \<Rightarrow> jsnum" where
  "Math_max vs = foldl max2 NInf vs"

fun fin :: "jsnum \<Rightarrow> bool" where
  "fin (Fin a) = True"
| "fin _ = False"

fun val :: "jsnum \<Rightarrow> real" where
  "val (Fin a) = a"
| "val _ = 0"

section \<open>Points and curves\<close>

text \<open>A point \<^verbatim>\<open>{ x, y }\<close>. The fields are called \<open>px\<close> and \<open>py\<close> here, since \<open>x\<close> and
  \<open>y\<close> are needed as variables.\<close>

record point =
  px :: jsnum
  py :: jsnum

text \<open>Points and curves with real coordinates, the inputs the theorems are about.\<close>

definition finite_point :: "point \<Rightarrow> bool" where
  "finite_point p = (fin (px p) \<and> fin (py p))"

definition finite_curve :: "point list \<Rightarrow> bool" where
  "finite_curve ps = list_all finite_point ps"

section \<open>resampleCurve\<close>

text \<open>The first loop of \<^verbatim>\<open>resampleCurve\<close>: the total path length.\<close>

definition pathLength :: "point list \<Rightarrow> jsnum" where
  "pathLength points =
     foldl (\<lambda>acc i.
              let dx = px (points ! i) - px (points ! (i - 1));
                  dy = py (points ! i) - py (points ! (i - 1))
              in acc + Math_sqrt (dx * dx + dy * dy))
       (Fin 0) [1..<length points]"

text \<open>The variables the resampling loop updates.\<close>

record walk_state =
  result :: "point list"
  currentDistance :: jsnum
  prevPoint :: point
  pointIndex :: nat

text \<open>The inner \<^verbatim>\<open>while\<close> loop: it leaves by its condition, or by \<^verbatim>\<open>break\<close> after
  pushing one interpolated point (then the walk variables keep their values).\<close>

function walk :: "point list \<Rightarrow> jsnum \<Rightarrow> walk_state \<Rightarrow> walk_state" where
  "walk points targetDistance s =
     (if currentDistance s < targetDistance \<and> pointIndex s < length points then
        (let nextPoint = points ! pointIndex s;
             dx = px nextPoint - px (prevPoint s);
             dy = py nextPoint - py (prevPoint s);
             segmentLength = Math_sqrt (dx * dx + dy * dy)
         in if targetDistance \<le> currentDistance s + segmentLength then
              (let t = (targetDistance - currentDistance s) / segmentLength
               in s\<lparr>result := result s @
                     [\<lparr>px = px (prevPoint s) + t * dx, py = py (prevPoint s) + t * dy\<rparr>]\<rparr>)
            else walk points targetDistance
                   (s\<lparr>currentDistance := currentDistance s + segmentLength,
                      prevPoint := nextPoint,
                      pointIndex := pointIndex s + 1\<rparr>))
      else s)"
  by pat_completeness auto
termination
  by (relation "measure (\<lambda>(points, targetDistance, s). length points - pointIndex s)") auto

declare walk.simps [simp del]

definition resampleCurve :: "point list \<Rightarrow> nat \<Rightarrow> point list" where
  "resampleCurve points n =
     (if length points \<le> 1 then points
      else
        let stepSize = pathLength points / Fin (real n - 1);
            s0 = \<lparr>result = [points ! 0], currentDistance = Fin 0,
                  prevPoint = points ! 0, pointIndex = 1\<rparr>;
            s = foldl (\<lambda>s i. walk points (Fin (real i) * stepSize) s) s0 [1..<n - 1]
        in result s @ [points ! (length points - 1)])"

section \<open>Normalisation\<close>

text \<open>The normalisation of the drawn stroke in \<^verbatim>\<open>searchForMatchingPatterns\<close>
  (screen space: the Y axis is inverted).\<close>

definition normalizeDrawing :: "point list \<Rightarrow> point list" where
  "normalizeDrawing pts =
     (let minX = Math_min (map px pts);
          maxX = Math_max (map px pts);
          minY = Math_min (map py pts);
          maxY = Math_max (map py pts)
      in map (\<lambda>p. \<lparr>px = (px p - minX) / js_or (maxX - minX) (Fin 1),
                     py = Fin 1 - (py p - minY) / js_or (maxY - minY) (Fin 1)\<rparr>) pts)"

text \<open>A prepared time series: \<^verbatim>\<open>{ product, category, data: [{ month, sales }], totalSales }\<close>.\<close>

record period =
  month :: string
  sales :: jsnum

record series =
  productName :: string
  category :: string
  data :: "period list"
  totalSales :: jsnum

text \<open>The normalisation of one series inside the \<^verbatim>\<open>map\<close> callback: \<open>x\<close> is the index
  of the period divided by \<^verbatim>\<open>series.data.length - 1\<close>, \<open>y\<close> the rescaled amount.\<close>

definition normalizeSeries :: "period list \<Rightarrow> point list" where
  "normalizeSeries sdata =
     (let rawValues = map sales sdata;
          minVal = Math_min rawValues;
          maxVal = Math_max rawValues
      in map (\<lambda>(d, i). \<lparr>px = Fin (real i) / Fin (real (length sdata) - 1),
                          py = (sales d - minVal) / js_or (maxVal - minVal) (Fin 1)\<rparr>)
           (zip sdata [0..<length sdata]))"

section \<open>calculateDTWSimilarity\<close>

text \<open>The body of the inner loop: the assignment to \<^verbatim>\<open>dtw[i][j]\<close>. The rows of the table
  are distinct arrays (\<^verbatim>\<open>Array(n + 1).fill().map(() => Array(m + 1).fill(Infinity))\<close>), so
  a list of lists models it.\<close>

definition dtw_cell :: "point list \<Rightarrow> point list \<Rightarrow> jsnum list list \<Rightarrow> nat \<Rightarrow> nat \<Rightarrow> jsnum list list" where
  "dtw_cell a b dtw i j =
     (let cost = Math_sqrt (Math_pow (py (a ! (i - 1)) - py (b ! (j - 1))) 2)
      in dtw[i := (dtw ! i)[j := cost + Math_min [dtw ! (i - 1) ! j,
                                                  dtw ! i ! (j - 1),
                                                  dtw ! (i - 1) ! (j - 1)]]])"

definition calculateDTWSimilarity :: "point list \<Rightarrow> point list \<Rightarrow> jsnum" where
  "calculateDTWSimilarity a b =
     (let n = length a;
          m = length b;
          dtw0 = replicate (n + 1) (replicate (m + 1) PInf);
          dtw1 = dtw0[0 := (dtw0 ! 0)[0 := Fin 0]];
          dtw = foldl (\<lambda>d i. foldl (\<lambda>d j. dtw_cell a b d i j) d [1..<m + 1]) dtw1 [1..<n + 1]
      in dtw ! n ! m)"

section \<open>The search\<close>

text \<open>A result: \<^verbatim>\<open>{ ...series, similarity, normalizedData }\<close>.\<close>

record match = series +
  similarity :: jsnum
  normalizedData :: "point list"

text \<open>The callback of \<^verbatim>\<open>.map(series => ...)\<close>, with \<^verbatim>\<open>numSamplePoints = 20\<close>.\<close>

definition scoreSeries :: "point list \<Rightarrow> series \<Rightarrow> match" where
  "scoreSeries sampledDrawing s =
     (let normalizedSeries = normalizeSeries (data s);
          sampledSeries = resampleCurve normalizedSeries 20
      in \<lparr>productName = productName s, category = category s, data = data s,
          totalSales = totalSales s,
          similarity = calculateDTWSimilarity sampledDrawing sampledSeries,
          normalizedData = normalizedSeries\<rparr>)"

definition results :: "point list \<Rightarrow> series list \<Rightarrow> string \<Rightarrow> match list" where
  "results pts tsd cat =
     (let sampledDrawing = resampleCurve (normalizeDrawing pts) 20
      in map (scoreSeries sampledDrawing)
           (filter (\<lambda>s. if cat \<noteq> ''All'' then category s = cat else True) tsd))"

text \<open>
  \<^verbatim>\<open>Array.prototype.sort\<close> belongs to the JavaScript engine. ECMAScript requires it to be
  stable, and to treat a comparator value \<open>NaN\<close> as \<open>0\<close>; for a consistent comparator its
  result is then determined. It is modelled by stable insertion: an element goes behind
  those the comparator does not put after it.
\<close>

fun insert_sorted :: "('a \<Rightarrow> 'a \<Rightarrow> jsnum) \<Rightarrow> 'a \<Rightarrow> 'a list \<Rightarrow> 'a list" where
  "insert_sorted cmp v [] = [v]"
| "insert_sorted cmp v (w # ws) =
     (if Fin 0 < cmp v w then w # insert_sorted cmp v ws else v # w # ws)"

definition Array_sort :: "('a \<Rightarrow> 'a \<Rightarrow> jsnum) \<Rightarrow> 'a list \<Rightarrow> 'a list" where
  "Array_sort cmp vs = foldr (insert_sorted cmp) vs []"

definition sortedResults :: "point list \<Rightarrow> series list \<Rightarrow> string \<Rightarrow> match list" where
  "sortedResults pts tsd cat =
     take 10 (Array_sort (\<lambda>a b. similarity a - similarity b) (results pts tsd cat))"

text \<open>The component state the search reads and writes; \<open>timeSeriesData\<close> is the memoised
  corpus.\<close>

record ui_state =
  drawingPoints :: "point list"
  isDrawing :: bool
  patternResults :: "match list"
  searching :: bool
  selectedCategory :: string
  timeSeriesData :: "series list"

definition searchForMatchingPatterns :: "ui_state \<Rightarrow> ui_state" where
  "searchForMatchingPatterns st =
     (if drawingPoints st = [] \<or> timeSeriesData st = [] then st
      else st\<lparr>patternResults :=
                sortedResults (drawingPoints st) (timeSeriesData st) (selectedCategory st),
              searching := False\<rparr>)"

definition endDrawing :: "ui_state \<Rightarrow> ui_state" where
  "endDrawing st =
     (let st1 = st\<lparr>isDrawing := False\<rparr>
      in if 5 \<le> length (drawingPoints st) then searchForMatchingPatterns st1 else st1)"

text \<open>The \<^verbatim>\<open>disabled\<close> attribute of the search button.\<close>

definition searchButtonDisabled :: "ui_state \<Rightarrow> bool" where
  "searchButtonDisabled st = (length (drawingPoints st) < 5 \<or> searching st)"

section \<open>The corpus filter and the match quality\<close>

text \<open>The callback of the last \<^verbatim>\<open>filter\<close> of \<^verbatim>\<open>timeSeriesData\<close>; its first argument is
  \<^verbatim>\<open>allMonths.length\<close>.\<close>

definition hasSufficientData :: "nat \<Rightarrow> series \<Rightarrow> bool" where
  "hasSufficientData allMonthsLength s =
     (Math_min [Fin 5, Fin (real allMonthsLength) / Fin 2]
        \<le> Fin (real (length (filter (\<lambda>d. Fin 0 < sales d) (data s)))))"

definition filterInsufficient :: "nat \<Rightarrow> series list \<Rightarrow> series list" where
  "filterInsufficient allMonthsLength result_series =
     filter (hasSufficientData allMonthsLength) result_series"


section \<open>Reference notions\<close>

text \<open>
  The notions below are not code of the component. They state what the theorems compare
  the code with, name the inputs of the examples, and carry the invariants of the loops.
\<close>

text \<open>A point with finite coordinates.\<close>

definition pt :: "real \<Rightarrow> real \<Rightarrow> point" where
  "pt a b = \<lparr>px = Fin a, py = Fin b\<rparr>"


text \<open>The minimum-support rule in the words of the specification: the number of periods
  with a non-zero amount is at least \<open>min(5, periodCount / 2)\<close>.\<close>

definition minimumSupportFilter_spec :: "nat \<Rightarrow> series \<Rightarrow> bool" where
  "minimumSupportFilter_spec periodCount s =
     (min 5 (real periodCount / 2) \<le> real (length (filter (\<lambda>d. sales d \<noteq> Fin 0) (data s))))"

text \<open>Series, results and component states used as examples.\<close>

definition series_flat :: series where
  "series_flat = \<lparr>productName = ''A'', category = ''Furniture'',
      data = [\<lparr>month = ''2024-01'', sales = Fin 10\<rparr>, \<lparr>month = ''2024-02'', sales = Fin 10\<rparr>,
              \<lparr>month = ''2024-03'', sales = Fin 10\<rparr>], totalSales = Fin 30\<rparr>"


definition series_returns :: series where
  "series_returns = \<lparr>productName = ''C'', category = ''Furniture'',
      data = [\<lparr>month = ''2024-01'', sales = Fin (- 1)\<rparr>, \<lparr>month = ''2024-02'', sales = Fin (- 1)\<rparr>],
      totalSales = Fin (- 2)\<rparr>"

definition earlier_match :: match where
  "earlier_match = \<lparr>productName = ''A'', category = ''Furniture'',
      data = [\<lparr>month = ''2024-01'', sales = Fin 10\<rparr>], totalSales = Fin 10,
      similarity = Fin 1, normalizedData = [\<lparr>px = NaN, py = Fin 0\<rparr>]\<rparr>"


definition state_short_stroke :: ui_state where
  "state_short_stroke = \<lparr>drawingPoints = [pt 0 0, pt 1 1, pt 2 0],
      isDrawing = True, patternResults = [earlier_match], searching = False,
      selectedCategory = ''All'', timeSeriesData = [series_flat]\<rparr>"

text \<open>Inputs on which no operation of the program overflows: the squared difference of
  any two \<open>y\<close> coordinates of two curves fits a double, and so does the range of a list of
  numbers.\<close>

definition costs_in_range :: "point list \<Rightarrow> point list \<Rightarrow> bool" where
  "costs_in_range a b =
     list_all (\<lambda>p. list_all (\<lambda>q. (val (py p) - val (py q)) ^ 2 \<le> MAX_VALUE) b) a"

definition range_in_double :: "jsnum list \<Rightarrow> bool" where
  "range_in_double vs = (Math_max vs - Math_min vs \<le> Fin MAX_VALUE)"


text \<open>Curves and series all of whose numbers are finite.\<close>

definition finite_ys :: "point list \<Rightarrow> bool" where
  "finite_ys ps = list_all (\<lambda>p. fin (py p)) ps"

definition finite_sales :: "period list \<Rightarrow> bool" where
  "finite_sales sdata = list_all (\<lambda>d. fin (sales d)) sdata"

text \<open>The two expressions \<^verbatim>\<open>resampleCurve\<close> repeats: the length of a segment and the
  interpolated point.\<close>

definition seglen :: "point \<Rightarrow> point \<Rightarrow> jsnum" where
  "seglen p q = Math_sqrt ((px q - px p) * (px q - px p) + (py q - py p) * (py q - py p))"

definition interp :: "point \<Rightarrow> point \<Rightarrow> jsnum \<Rightarrow> point" where
  "interp p q t = \<lparr>px = px p + t * (px q - px p), py = py p + t * (py q - py p)\<rparr>"

text \<open>Invariants of the resampling walk: finiteness of its variables, and the position of
  the walk on the polyline (\<open>plen ps k\<close> is the length of the path through the first \<open>k\<close>
  points).\<close>

definition walk_inv :: "walk_state \<Rightarrow> bool" where
  "walk_inv s = (fin (currentDistance s) \<and> finite_point (prevPoint s) \<and> finite_curve (result s))"

definition rseg :: "point \<Rightarrow> point \<Rightarrow> real" where
  "rseg p q = val (seglen p q)"

definition plen :: "point list \<Rightarrow> nat \<Rightarrow> real" where
  "plen ps k = (\<Sum>i = 1..<k. rseg (ps ! (i - 1)) (ps ! i))"

definition walk_pos :: "point list \<Rightarrow> walk_state \<Rightarrow> bool" where
  "walk_pos ps s = (1 \<le> pointIndex s \<and> pointIndex s \<le> length ps \<and>
      prevPoint s = ps ! (pointIndex s - 1) \<and> currentDistance s = Fin (plen ps (pointIndex s)))"

text \<open>The recurrence the cumulative-cost table is meant to hold, and the invariant of the
  two loops that fill it: the cells of the rows before \<open>k\<close>, of row \<open>k\<close> up to column \<open>l\<close>,
  and of column \<open>0\<close> hold the recurrence.\<close>

definition dtw_cost :: "point list \<Rightarrow> point list \<Rightarrow> nat \<Rightarrow> nat \<Rightarrow> jsnum" where
  "dtw_cost a b i j = Math_sqrt (Math_pow (py (a ! (i - 1)) - py (b ! (j - 1))) 2)"

fun dtw_rec :: "point list \<Rightarrow> point list \<Rightarrow> nat \<Rightarrow> nat \<Rightarrow> jsnum" where
  "dtw_rec a b 0 0 = Fin 0"
| "dtw_rec a b 0 (Suc j) = PInf"
| "dtw_rec a b (Suc i) 0 = PInf"
| "dtw_rec a b (Suc i) (Suc j) =
     dtw_cost a b (Suc i) (Suc j)
       + Math_min [dtw_rec a b i (Suc j), dtw_rec a b (Suc i) j, dtw_rec a b i j]"

definition dtw_inv :: "point list \<Rightarrow> point list \<Rightarrow> jsnum list list \<Rightarrow> nat \<Rightarrow> nat \<Rightarrow> bool" where
  "dtw_inv a b d k l =
     (length d = length a + 1 \<and> (\<forall>i \<le> length a. length (d ! i) = length b + 1) \<and>
      (\<forall>i j. i \<le> length a \<and> j \<le> length b \<and> (i < k \<or> (i = k \<and> j \<le> l) \<or> j = 0)
          \<longrightarrow> d ! i ! j = dtw_rec a b i j))"

text \<open>Linear rescaling over the reals, with the divisor \<open>1\<close> for an empty range.\<close>

definition rescale :: "real \<Rightarrow> real \<Rightarrow> real \<Rightarrow> real" where
  "rescale lo hi v = (v - lo) / (if hi - lo = 0 then 1 else hi - lo)"

section \<open>Lemmas\<close>

subsection \<open>Arithmetic of finite numbers\<close>

lemma fin_iff: "fin a \<longleftrightarrow> (\<exists>r. a = Fin r)"
  by (cases a) auto

lemma plus_nonneg: "Fin 0 \<le> u \<Longrightarrow> Fin 0 \<le> v \<Longrightarrow> Fin 0 \<le> u + v"
  by (cases u; cases v) auto


lemma min2_nonneg: "Fin 0 \<le> u \<Longrightarrow> Fin 0 \<le> v \<Longrightarrow> Fin 0 \<le> min2 u v"
  by (cases u; cases v) (auto simp: min2_def)


lemma min2_zero: "Fin 0 \<le> u \<Longrightarrow> Fin 0 \<le> v \<Longrightarrow> u = Fin 0 \<or> v = Fin 0 \<Longrightarrow> min2 u v = Fin 0"
  by (cases u; cases v) (auto simp: min2_def)

lemma Math_min3: "Math_min [u, v, w] = min2 (min2 u v) w"
  by (cases u) (simp_all add: Math_min_def min2_def)

lemma Math_min3_nonneg:
  "Fin 0 \<le> u \<Longrightarrow> Fin 0 \<le> v \<Longrightarrow> Fin 0 \<le> w \<Longrightarrow> Fin 0 \<le> Math_min [u, v, w]"
  by (simp add: Math_min3 min2_nonneg)


lemma Math_min3_zero:
  "Fin 0 \<le> u \<Longrightarrow> Fin 0 \<le> v \<Longrightarrow> w = Fin 0 \<Longrightarrow> Math_min [u, v, w] = Fin 0"
  unfolding Math_min3 by (simp add: min2_zero min2_nonneg)

lemma foldl_min2_Fin: "foldl min2 (Fin m) (map Fin rs) = Fin (Min (insert m (set rs)))"
proof (induction rs arbitrary: m)
  case Nil then show ?case by simp
next
  case (Cons r rs)
  have "min2 (Fin m) (Fin r) = Fin (min m r)" by (simp add: min2_def min_def)
  moreover have "Min (insert (min m r) (set rs)) = Min (insert m (insert r (set rs)))"
    by (cases "rs = []") (simp_all add: min.assoc)
  ultimately show ?case using Cons by simp
qed

lemma foldl_max2_Fin: "foldl max2 (Fin m) (map Fin rs) = Fin (Max (insert m (set rs)))"
proof (induction rs arbitrary: m)
  case Nil then show ?case by simp
next
  case (Cons r rs)
  have "max2 (Fin m) (Fin r) = Fin (max m r)" by (simp add: max2_def max_def)
  moreover have "Max (insert (max m r) (set rs)) = Max (insert m (insert r (set rs)))"
    by (cases "rs = []") (simp_all add: max.assoc)
  ultimately show ?case using Cons by simp
qed

lemma Math_min_Fin: "rs \<noteq> [] \<Longrightarrow> Math_min (map Fin rs) = Fin (Min (set rs))"
  by (cases rs) (simp_all add: Math_min_def min2_def foldl_min2_Fin)

lemma Math_max_Fin: "rs \<noteq> [] \<Longrightarrow> Math_max (map Fin rs) = Fin (Max (set rs))"
  by (cases rs) (simp_all add: Math_max_def max2_def foldl_max2_Fin)

lemma map_fin_val: "list_all (\<lambda>p. fin (f p)) ps \<Longrightarrow> map f ps = map Fin (map (\<lambda>p. val (f p)) ps)"
  by (induction ps) (auto simp: fin_iff)






subsection \<open>Finite curves\<close>

lemma finite_curve_nth: "finite_curve ps \<Longrightarrow> i < length ps \<Longrightarrow> finite_point (ps ! i)"
  by (simp add: finite_curve_def list_all_length)

lemma finite_curve_maps:
  "finite_curve ps \<longleftrightarrow> list_all fin (map px ps) \<and> list_all fin (map py ps)"
  by (auto simp: finite_curve_def finite_point_def list_all_iff)

lemma finite_ys_map: "finite_ys ps \<longleftrightarrow> list_all fin (map py ps)"
  by (auto simp: finite_ys_def list_all_iff)

lemma finite_curve_ys: "finite_curve ps \<Longrightarrow> finite_ys ps"
  by (simp add: finite_curve_maps finite_ys_map)

lemma seglen_fin:
  "finite_point p \<Longrightarrow> finite_point q \<Longrightarrow> \<exists>r\<ge>0. seglen p q = Fin r"
  by (auto simp: finite_point_def fin_iff seglen_def)

lemma interp_fin:
  "finite_point p \<Longrightarrow> finite_point q \<Longrightarrow> fin t \<Longrightarrow> finite_point (interp p q t)"
  by (auto simp: finite_point_def fin_iff interp_def)

lemma seglen_rseg: "finite_point p \<Longrightarrow> finite_point q \<Longrightarrow> seglen p q = Fin (rseg p q)"
  using seglen_fin[of p q] by (auto simp: rseg_def)

lemma rseg_nonneg: "finite_point p \<Longrightarrow> finite_point q \<Longrightarrow> 0 \<le> rseg p q"
  using seglen_fin[of p q] by (auto simp: rseg_def)

subsection \<open>The resampling walk\<close>

lemma walk_exit:
  "\<not> (currentDistance s < t \<and> pointIndex s < length ps) \<Longrightarrow> walk ps t s = s"
  by (subst walk.simps) auto

lemma walk_push:
  "currentDistance s < t \<Longrightarrow> pointIndex s < length ps \<Longrightarrow>
   t \<le> currentDistance s + seglen (prevPoint s) (ps ! pointIndex s) \<Longrightarrow>
   walk ps t s = s\<lparr>result := result s @
      [interp (prevPoint s) (ps ! pointIndex s)
         ((t - currentDistance s) / seglen (prevPoint s) (ps ! pointIndex s))]\<rparr>"
  by (subst walk.simps) (simp add: Let_def seglen_def interp_def)

lemma walk_next:
  "currentDistance s < t \<Longrightarrow> pointIndex s < length ps \<Longrightarrow>
   \<not> t \<le> currentDistance s + seglen (prevPoint s) (ps ! pointIndex s) \<Longrightarrow>
   walk ps t s = walk ps t (s\<lparr>currentDistance := currentDistance s + seglen (prevPoint s) (ps ! pointIndex s),
        prevPoint := ps ! pointIndex s, pointIndex := pointIndex s + 1\<rparr>)"
  by (subst walk.simps) (simp add: Let_def seglen_def)

lemma walk_appends: "\<exists>qs. result (walk ps t s) = result s @ qs"
proof (induction ps t s rule: walk.induct)
  case (1 points targetDistance s)
  show ?case
  proof (cases "currentDistance s < targetDistance \<and> pointIndex s < length points")
    case False then show ?thesis by (simp add: walk_exit)
  next
    case True
    show ?thesis
    proof (cases "targetDistance \<le> currentDistance s + seglen (prevPoint s) (points ! pointIndex s)")
      case t: True
      with True show ?thesis by (simp add: walk_push)
    next
      case False
      with True 1[OF True refl refl refl refl] show ?thesis
        by (simp add: walk_next seglen_def)
    qed
  qed
qed

lemma foldl_walk_appends: "\<exists>qs. result (foldl (\<lambda>s i. walk ps (tgt i) s) s is) = result s @ qs"
proof (induction "is" arbitrary: s)
  case Nil then show ?case by simp
next
  case (Cons i "is")
  from walk_appends[of ps "tgt i" s] obtain qs where a: "result (walk ps (tgt i) s) = result s @ qs" by auto
  from Cons[of "walk ps (tgt i) s"] obtain qs' where
    "result (foldl (\<lambda>s i. walk ps (tgt i) s) (walk ps (tgt i) s) is) = result (walk ps (tgt i) s) @ qs'" by auto
  then show ?case by (simp add: a)
qed

lemma resampleCurve_endpoints:
  assumes "2 \<le> length ps"
  shows "hd (resampleCurve ps n) = hd ps \<and> last (resampleCurve ps n) = last ps"
proof -
  let ?s0 = "\<lparr>result = [ps ! 0], currentDistance = Fin 0, prevPoint = ps ! 0, pointIndex = 1\<rparr>"
  from foldl_walk_appends[of ps "\<lambda>i. Fin (real i) * (pathLength ps / Fin (real n - 1))" ?s0 "[1..<n - 1]"]
  obtain qs where "result (foldl (\<lambda>s i. walk ps (Fin (real i) * (pathLength ps / Fin (real n - 1))) s) ?s0 [1..<n - 1])
     = [ps ! 0] @ qs" by auto
  moreover have "ps \<noteq> []" "\<not> length ps \<le> 1" using assms by auto
  ultimately show ?thesis
    by (simp add: resampleCurve_def Let_def hd_conv_nth last_conv_nth)
qed

subsection \<open>Resampling keeps coordinates finite\<close>

lemma walk_finite:
  "finite_curve ps \<Longrightarrow> fin t \<Longrightarrow> walk_inv s \<Longrightarrow> walk_inv (walk ps t s)"
proof (induction ps t s rule: walk.induct)
  case (1 points targetDistance s)
  show ?case
  proof (cases "currentDistance s < targetDistance \<and> pointIndex s < length points")
    case False
    then show ?thesis using 1(4) by (simp add: walk_exit)
  next
    case True
    let ?nx = "points ! pointIndex s"
    have nx: "finite_point ?nx"
      using True 1(2) by (simp add: finite_curve_nth)
    from 1(4) have pv: "finite_point (prevPoint s)" by (simp add: walk_inv_def)
    from seglen_fin[OF pv nx] obtain sg where sg: "0 \<le> sg" "seglen (prevPoint s) ?nx = Fin sg"
      by auto
    from 1(4) obtain c where c: "currentDistance s = Fin c"
      by (auto simp: walk_inv_def fin_iff)
    from 1(3) obtain tv where tv: "targetDistance = Fin tv" by (auto simp: fin_iff)
    have ctv: "c < tv" using True c tv by simp
    show ?thesis
    proof (cases "targetDistance \<le> currentDistance s + seglen (prevPoint s) ?nx")
      case True2: True
      with ctv have "sg \<noteq> 0" by (auto simp: c tv sg)
      then have "fin ((targetDistance - currentDistance s) / seglen (prevPoint s) ?nx)"
        by (simp add: c tv sg)
      then have "finite_point (interp (prevPoint s) ?nx
             ((targetDistance - currentDistance s) / seglen (prevPoint s) ?nx))"
        using pv nx by (simp add: interp_fin)
      then show ?thesis
        using True True2 1(4)
        by (simp add: walk_push walk_inv_def finite_curve_def)
    next
      case False
      let ?s' = "s\<lparr>currentDistance := currentDistance s + seglen (prevPoint s) ?nx,
                      prevPoint := ?nx, pointIndex := pointIndex s + 1\<rparr>"
      have "walk_inv ?s'"
        using 1(4) nx by (simp add: walk_inv_def c sg)
      then have "walk_inv (walk points targetDistance ?s')"
        using 1(1)[OF True refl refl refl refl _ 1(2) 1(3)] False
        by (simp add: seglen_def)
      then show ?thesis
        using True False by (simp add: walk_next)
    qed
  qed
qed

lemma foldl_walk_finite:
  "finite_curve ps \<Longrightarrow> \<forall>i\<in>set is. fin (tgt i) \<Longrightarrow> walk_inv s \<Longrightarrow>
   walk_inv (foldl (\<lambda>s i. walk ps (tgt i) s) s is)"
  by (induction "is" arbitrary: s) (simp_all add: walk_finite)

lemma pathLength_seglen:
  "pathLength ps = foldl (\<lambda>acc i. acc + seglen (ps ! (i - 1)) (ps ! i)) (Fin 0) [1..<length ps]"
  by (simp add: pathLength_def seglen_def Let_def)

lemma pathLength_fin_aux:
  "finite_curve ps \<Longrightarrow> k \<le> length ps \<Longrightarrow>
   \<exists>r\<ge>0. foldl (\<lambda>acc i. acc + seglen (ps ! (i - 1)) (ps ! i)) (Fin 0) [1..<k] = Fin r"
proof (induction k)
  case 0 then show ?case by simp
next
  case (Suc k)
  show ?case
  proof (cases "k = 0")
    case True then show ?thesis by simp
  next
    case False
    with Suc obtain r where r: "0 \<le> r"
      "foldl (\<lambda>acc i. acc + seglen (ps ! (i - 1)) (ps ! i)) (Fin 0) [1..<k] = Fin r" by auto
    have "finite_point (ps ! (k - 1))" "finite_point (ps ! k)"
      using Suc(2,3) by (auto intro!: finite_curve_nth)
    from seglen_fin[OF this] obtain sg where "0 \<le> sg" "seglen (ps ! (k - 1)) (ps ! k) = Fin sg"
      by auto
    with r False show ?thesis by simp
  qed
qed

lemma pathLength_fin: "finite_curve ps \<Longrightarrow> \<exists>r\<ge>0. pathLength ps = Fin r"
  using pathLength_fin_aux[of ps "length ps"] by (simp add: pathLength_seglen)

lemma resampleCurve_finite:
  assumes "finite_curve ps"
  shows "finite_curve (resampleCurve ps n)"
proof (cases "length ps \<le> 1")
  case True
  then show ?thesis using assms by (simp add: resampleCurve_def)
next
  case False
  then have p0: "finite_point (ps ! 0)" and pl: "finite_point (ps ! (length ps - 1))"
    using assms by (auto intro!: finite_curve_nth)
  let ?s0 = "\<lparr>result = [ps ! 0], currentDistance = Fin 0, prevPoint = ps ! 0, pointIndex = 1\<rparr>"
  have inv0: "walk_inv ?s0" using p0 by (simp add: walk_inv_def finite_curve_def)
  show ?thesis
  proof (cases "n \<le> 2")
    case True
    then have e: "[1..<n - 1] = []" by simp
    show ?thesis unfolding resampleCurve_def Let_def e using False p0 pl
      by (simp add: finite_curve_def)
  next
    case n: False
    from pathLength_fin[OF assms] obtain P where P: "pathLength ps = Fin P" by auto
    have "\<forall>i\<in>set [1..<n - 1]. fin (Fin (real i) * (pathLength ps / Fin (real n - 1)))"
      using n by (simp add: P)
    from foldl_walk_finite[OF assms this inv0]
    show ?thesis using False pl
      by (simp add: resampleCurve_def Let_def finite_curve_def walk_inv_def)
  qed
qed

subsection \<open>A path of length zero\<close>

lemma seg_same: "fin a \<Longrightarrow> fin b \<Longrightarrow> Math_sqrt ((a - a) * (a - a) + (b - b) * (b - b)) = Fin 0"
  by (auto simp: fin_iff)

lemma pathLength_same_aux:
  "finite_point p \<Longrightarrow> \<forall>i < length ps. ps ! i = p \<Longrightarrow> k \<le> length ps \<Longrightarrow>
   foldl (\<lambda>acc i.
              let dx = px (ps ! i) - px (ps ! (i - 1));
                  dy = py (ps ! i) - py (ps ! (i - 1))
              in acc + Math_sqrt (dx * dx + dy * dy))
       (Fin 0) [1..<k] = Fin 0"
proof (induction k)
  case 0 then show ?case by simp
next
  case (Suc k)
  show ?case
  proof (cases "k = 0")
    case True then show ?thesis by simp
  next
    case False
    with Suc have "ps ! k = p" "ps ! (k - 1) = p" by auto
    with Suc False show ?thesis
      by (simp add: finite_point_def seg_same Let_def)
  qed
qed

lemma foldl_walk_stay:
  "\<forall>i\<in>set is. \<not> (currentDistance s < tgt i) \<Longrightarrow> foldl (\<lambda>s i. walk ps (tgt i) s) s is = s"
  by (induction "is" arbitrary: s) (simp_all add: walk_exit)

lemma resample_coincident:
  assumes "finite_point p" "2 \<le> length ps" "\<forall>i < length ps. ps ! i = p" "2 \<le> n"
  shows "resampleCurve ps n = [p, p]"
proof -
  have pl: "pathLength ps = Fin 0"
    unfolding pathLength_def using pathLength_same_aux[OF assms(1,3), of "length ps"] by simp
  have st: "Fin 0 / Fin (real n - 1) = Fin 0" using assms(4) by simp
  from assms(2) have "0 < length ps" "length ps - 1 < length ps" by auto
  with assms(3) have p0: "ps ! 0 = p" "ps ! (length ps - 1) = p" by blast+
  have "\<not> length ps \<le> 1" using assms(2) by simp
  moreover have "foldl (\<lambda>s i. walk ps (Fin (real i) * Fin 0) s)
          \<lparr>result = [p], currentDistance = Fin 0, prevPoint = p, pointIndex = 1\<rparr> [1..<n - 1]
        = \<lparr>result = [p], currentDistance = Fin 0, prevPoint = p, pointIndex = 1\<rparr>"
    by (rule foldl_walk_stay) simp
  ultimately show ?thesis
    unfolding resampleCurve_def pl st p0 Let_def by simp
qed

subsection \<open>A path of positive length\<close>

lemma plen_Suc: "1 \<le> k \<Longrightarrow> plen ps (Suc k) = plen ps k + rseg (ps ! (k - 1)) (ps ! k)"
  by (simp add: plen_def)

lemma plen_mono: "finite_curve ps \<Longrightarrow> 1 \<le> k \<Longrightarrow> k \<le> l \<Longrightarrow> l \<le> length ps \<Longrightarrow> plen ps k \<le> plen ps l"
proof (induction l)
  case 0 then show ?case by simp
next
  case (Suc l)
  show ?case
  proof (cases "k = Suc l")
    case True then show ?thesis by simp
  next
    case False
    with Suc have kl: "k \<le> l" "1 \<le> l" "l < length ps" by auto
    then have "0 \<le> rseg (ps ! (l - 1)) (ps ! l)"
      using Suc(2) by (intro rseg_nonneg finite_curve_nth) auto
    then show ?thesis using Suc kl by (simp add: plen_Suc)
  qed
qed

lemma pathLength_plen_aux:
  "finite_curve ps \<Longrightarrow> k \<le> length ps \<Longrightarrow>
   foldl (\<lambda>acc i. acc + seglen (ps ! (i - 1)) (ps ! i)) (Fin 0) [1..<k] = Fin (plen ps k)"
proof (induction k)
  case 0 then show ?case by (simp add: plen_def)
next
  case (Suc k)
  show ?case
  proof (cases "k = 0")
    case True then show ?thesis by (simp add: plen_def)
  next
    case False
    then have "seglen (ps ! (k - 1)) (ps ! k) = Fin (rseg (ps ! (k - 1)) (ps ! k))"
      using Suc(2,3) by (intro seglen_rseg finite_curve_nth) auto
    then show ?thesis using Suc False by (simp add: plen_Suc)
  qed
qed

lemma pathLength_plen: "finite_curve ps \<Longrightarrow> pathLength ps = Fin (plen ps (length ps))"
  using pathLength_plen_aux[of ps "length ps"] by (simp add: pathLength_seglen)

lemma walk_pushes_one:
  "finite_curve ps \<Longrightarrow> walk_pos ps s \<Longrightarrow> plen ps (pointIndex s) < tv \<Longrightarrow>
   tv \<le> plen ps (length ps) \<Longrightarrow>
   walk_pos ps (walk ps (Fin tv) s) \<and>
   plen ps (pointIndex (walk ps (Fin tv) s)) < tv \<and>
   (\<exists>q. result (walk ps (Fin tv) s) = result s @ [q])"
proof (induction ps "Fin tv" s rule: walk.induct)
  case (1 points s)
  let ?i = "pointIndex s"
  from 1(3) have J: "1 \<le> ?i" "?i \<le> length points" "prevPoint s = points ! (?i - 1)"
    "currentDistance s = Fin (plen points ?i)" by (auto simp: walk_pos_def)
  have "?i \<noteq> length points" using 1(4,5) by auto
  with J have lt: "?i < length points" by simp
  have c: "currentDistance s < Fin tv" using J 1(4) by simp
  have sg: "seglen (prevPoint s) (points ! ?i) = Fin (rseg (points ! (?i - 1)) (points ! ?i))"
    unfolding J(3) using 1(2) lt J(1) by (intro seglen_rseg finite_curve_nth) auto
  show ?case
  proof (cases "Fin tv \<le> currentDistance s + seglen (prevPoint s) (points ! ?i)")
    case True
    then show ?thesis using c lt 1(3,4) by (simp add: walk_push walk_pos_def)
  next
    case False
    let ?s' = "s\<lparr>currentDistance := currentDistance s + seglen (prevPoint s) (points ! ?i),
                  prevPoint := points ! ?i, pointIndex := ?i + 1\<rparr>"
    have w: "walk points (Fin tv) s = walk points (Fin tv) ?s'"
      using c lt False by (rule walk_next)
    have J': "walk_pos points ?s'"
      using J(1,2,4) lt by (simp add: walk_pos_def sg plen_Suc)
    have lt': "plen points (pointIndex ?s') < tv"
      using False J(1,4) by (simp add: sg plen_Suc)
    have "walk_pos points (walk points (Fin tv) ?s') \<and>
          plen points (pointIndex (walk points (Fin tv) ?s')) < tv \<and>
          (\<exists>q. result (walk points (Fin tv) ?s') = result ?s' @ [q])"
      using 1(1)[OF conjI[OF c lt] refl refl refl refl False[unfolded seglen_def] 1(2)
                 J'[unfolded seglen_def] lt'[unfolded seglen_def] 1(5)]
      by (simp add: seglen_def)
    then show ?thesis unfolding w by simp
  qed
qed

lemma foldl_walk_pushes:
  "finite_curve ps \<Longrightarrow> walk_pos ps s \<Longrightarrow>
   \<forall>i\<in>set is. plen ps (pointIndex s) < tv i \<and> tv i \<le> plen ps (length ps) \<Longrightarrow>
   sorted (map tv is) \<Longrightarrow>
   length (result (foldl (\<lambda>s i. walk ps (Fin (tv i)) s) s is)) = length (result s) + length is"
proof (induction "is" arbitrary: s)
  case Nil then show ?case by simp
next
  case (Cons i "is")
  from Cons(4) have "plen ps (pointIndex s) < tv i" "tv i \<le> plen ps (length ps)" by auto
  from walk_pushes_one[OF Cons(2,3) this]
  obtain q where w: "walk_pos ps (walk ps (Fin (tv i)) s)"
    "plen ps (pointIndex (walk ps (Fin (tv i)) s)) < tv i"
    "result (walk ps (Fin (tv i)) s) = result s @ [q]" by auto
  have "\<forall>j\<in>set is. plen ps (pointIndex (walk ps (Fin (tv i)) s)) < tv j \<and> tv j \<le> plen ps (length ps)"
    using Cons(4,5) w(2) by fastforce
  moreover have "sorted (map tv is)" using Cons(5) by simp
  ultimately have "length (result (foldl (\<lambda>s i. walk ps (Fin (tv i)) s) (walk ps (Fin (tv i)) s) is))
      = length (result (walk ps (Fin (tv i)) s)) + length is"
    using Cons(1)[OF Cons(2) w(1)] by simp
  then show ?case by (simp add: w(3))
qed

lemma resampleCurve_length_positive:
  assumes "finite_curve ps" "2 \<le> length ps" "2 \<le> n" "pathLength ps \<noteq> Fin 0"
  shows "length (resampleCurve ps n) = n"
proof -
  let ?P = "plen ps (length ps)"
  have P: "pathLength ps = Fin ?P" using assms(1) by (rule pathLength_plen)
  have "plen ps 1 \<le> ?P" using assms(1,2) by (intro plen_mono) auto
  then have Ppos: "0 < ?P" using assms(4) P by (simp add: plen_def)
  let ?s0 = "\<lparr>result = [ps ! 0], currentDistance = Fin 0, prevPoint = ps ! 0, pointIndex = 1\<rparr>"
  let ?tv = "\<lambda>i. real i * (?P / (real n - 1))"
  have n1: "real n - 1 \<noteq> 0" "0 < real n - 1" using assms(3) by auto
  have tg: "Fin (real i) * (pathLength ps / Fin (real n - 1)) = Fin (?tv i)" for i
    using n1 by (simp add: P)
  have J0: "walk_pos ps ?s0" using assms(2) by (simp add: walk_pos_def plen_def)
  have rng: "\<forall>i\<in>set [1..<n - 1]. plen ps (pointIndex ?s0) < ?tv i \<and> ?tv i \<le> ?P"
  proof
    fix i assume "i \<in> set [1..<n - 1]"
    then have i: "1 \<le> i" "i < n - 1" by auto
    then have "0 < ?tv i" using Ppos n1 by simp
    moreover have "real i \<le> real n - 1" using i by auto
    then have "real i * ?P \<le> (real n - 1) * ?P" using Ppos by (intro mult_right_mono) auto
    then have "?tv i \<le> ?P" using n1 by (simp add: pos_divide_le_eq mult.commute)
    ultimately show "plen ps (pointIndex ?s0) < ?tv i \<and> ?tv i \<le> ?P" by (simp add: plen_def)
  qed
  have srt: "sorted (map ?tv [1..<n - 1])"
    using Ppos n1 by (auto simp: sorted_map sorted_wrt_iff_nth_less intro!: divide_right_mono mult_right_mono)
  have "length (result (foldl (\<lambda>s i. walk ps (Fin (?tv i)) s) ?s0 [1..<n - 1]))
      = length (result ?s0) + length [1..<n - 1]"
    using assms(1) J0 rng srt by (rule foldl_walk_pushes)
  then show ?thesis using assms(2,3)
    by (simp add: resampleCurve_def Let_def tg del: times_jsnum.simps divide_jsnum.simps)
qed

subsection \<open>The table of cumulative costs\<close>

lemma dtw_inv_init:
  "dtw_inv a b ((replicate (length a + 1) (replicate (length b + 1) PInf))
       [0 := (replicate (length a + 1) (replicate (length b + 1) PInf) ! 0)[0 := Fin 0]]) 0 (length b)"
proof -
  let ?T = "(Fin 0 # replicate (length b) PInf) # replicate (length a) (PInf # replicate (length b) PInf)"
  have T: "(replicate (length a + 1) (replicate (length b + 1) PInf))
       [0 := (replicate (length a + 1) (replicate (length b + 1) PInf) ! 0)[0 := Fin 0]] = ?T"
    by simp
  have l: "length (?T ! i) = length b + 1" if "i \<le> length a" for i
    using that by (cases i) auto
  have v: "?T ! i ! j = dtw_rec a b i j" if "i \<le> length a" "j \<le> length b" "i = 0 \<or> j = 0" for i j
    using that by (cases i; cases j) auto
  show ?thesis
    unfolding T dtw_inv_def using l v by auto
qed

lemma dtw_inv_cell:
  assumes "dtw_inv a b d i (j - 1)" "1 \<le> i" "i \<le> length a" "1 \<le> j" "j \<le> length b"
  shows "dtw_inv a b (dtw_cell a b d i j) i j"
proof -
  obtain i0 j0 where ij: "i = Suc i0" "j = Suc j0" using assms(2,4) by (cases i; cases j) auto
  have len: "length d = length a + 1" "\<And>i. i \<le> length a \<Longrightarrow> length (d ! i) = length b + 1"
    using assms(1) by (auto simp: dtw_inv_def)
  have old: "d ! i' ! j' = dtw_rec a b i' j'"
    if "i' \<le> length a" "j' \<le> length b" "i' < i \<or> (i' = i \<and> j' \<le> j - 1) \<or> j' = 0" for i' j'
    using assms(1) that unfolding dtw_inv_def by blast
  have r1: "d ! i0 ! j = dtw_rec a b i0 j" using assms ij by (intro old) auto
  have r2: "d ! i ! j0 = dtw_rec a b i j0" using assms ij by (intro old) auto
  have r3: "d ! i0 ! j0 = dtw_rec a b i0 j0" using assms ij by (intro old) auto
  have new: "dtw_cell a b d i j ! i ! j = dtw_rec a b i j"
    using assms(3,5) len r1 r2 r3
    by (simp add: dtw_cell_def Let_def ij dtw_cost_def)
  have same: "dtw_cell a b d i j ! i' ! j' = d ! i' ! j'" if "i' \<noteq> i \<or> j' \<noteq> j" "i' \<le> length a" for i' j'
    using that len assms(3) by (auto simp: dtw_cell_def Let_def nth_list_update)
  have lens: "length (dtw_cell a b d i j) = length a + 1"
     "\<And>i'. i' \<le> length a \<Longrightarrow> length (dtw_cell a b d i j ! i') = length b + 1"
    using len assms(3) by (auto simp: dtw_cell_def Let_def nth_list_update)
  show ?thesis
    unfolding dtw_inv_def
  proof (intro conjI allI impI)
    fix i' j'
    assume h: "i' \<le> length a \<and> j' \<le> length b \<and> (i' < i \<or> i' = i \<and> j' \<le> j \<or> j' = 0)"
    show "dtw_cell a b d i j ! i' ! j' = dtw_rec a b i' j'"
    proof (cases "i' = i \<and> j' = j")
      case True then show ?thesis using new by simp
    next
      case False
      then have "dtw_cell a b d i j ! i' ! j' = d ! i' ! j'" using same h by blast
      also have "\<dots> = dtw_rec a b i' j'" using False h by (intro old) auto
      finally show ?thesis .
    qed
  qed (use lens in auto)
qed

lemma dtw_inv_row:
  assumes "dtw_inv a b d i 0" "1 \<le> i" "i \<le> length a" "l \<le> length b"
  shows "dtw_inv a b (foldl (\<lambda>d j. dtw_cell a b d i j) d [1..<l + 1]) i l"
  using assms(4)
proof (induction l)
  case 0 then show ?case using assms(1) by simp
next
  case (Suc l)
  then have "dtw_inv a b (foldl (\<lambda>d j. dtw_cell a b d i j) d [1..<l + 1]) i l" by simp
  from dtw_inv_cell[of a b _ i "Suc l", simplified, OF this] assms(2,3) Suc(2)
  show ?case by simp
qed

lemma dtw_inv_next: "dtw_inv a b d k (length b) \<Longrightarrow> dtw_inv a b d (Suc k) 0"
  unfolding dtw_inv_def by (auto simp: less_Suc_eq)

lemma dtw_inv_rows:
  assumes "dtw_inv a b d 0 (length b)" "k \<le> length a"
  shows "dtw_inv a b (foldl (\<lambda>d i. foldl (\<lambda>d j. dtw_cell a b d i j) d [1..<length b + 1]) d [1..<k + 1])
           k (length b)"
  using assms(2)
proof (induction k)
  case 0 then show ?case using assms(1) by simp
next
  case (Suc k)
  then have "dtw_inv a b (foldl (\<lambda>d i. foldl (\<lambda>d j. dtw_cell a b d i j) d [1..<length b + 1]) d [1..<k + 1])
           (Suc k) 0" by (simp add: dtw_inv_next)
  from dtw_inv_row[OF this, of "length b"] Suc(2)
  show ?case by simp
qed

lemma calculateDTWSimilarity_rec:
  "calculateDTWSimilarity a b = dtw_rec a b (length a) (length b)"
proof -
  have "dtw_inv a b (foldl (\<lambda>d i. foldl (\<lambda>d j. dtw_cell a b d i j) d [1..<length b + 1])
     ((replicate (length a + 1) (replicate (length b + 1) PInf))
       [0 := (replicate (length a + 1) (replicate (length b + 1) PInf) ! 0)[0 := Fin 0]])
       [1..<length a + 1]) (length a) (length b)"
    by (rule dtw_inv_rows[OF dtw_inv_init]) simp
  then show ?thesis
    unfolding calculateDTWSimilarity_def Let_def dtw_inv_def by blast
qed

lemma MAX_VALUE_ge_one: "1 \<le> MAX_VALUE"
proof -
  have "(2::real) ^ 971 * 2 \<le> 2 ^ 971 * 2 ^ 53" by (intro mult_left_mono) simp_all
  then have "(2::real) ^ 971 + 2 ^ 971 \<le> 2 ^ 1024" by (simp add: power_add[symmetric])
  moreover have "(1::real) \<le> 2 ^ 971" by simp
  ultimately show ?thesis by (simp add: MAX_VALUE_def)
qed

lemma overflow_square: "overflow (d ^ 2) = (if d ^ 2 \<le> MAX_VALUE then Fin (d ^ 2) else PInf)"
proof -
  have "- MAX_VALUE \<le> d ^ 2" using MAX_VALUE_ge_one zero_le_power2[of d] by linarith
  then show ?thesis by (auto simp: overflow_def)
qed

lemma dtw_cost_cases:
  assumes "finite_ys a" "finite_ys b" "i < length a" "j < length b"
  shows "dtw_cost a b (Suc i) (Suc j) =
     (if (val (py (a ! i)) - val (py (b ! j))) ^ 2 \<le> MAX_VALUE
      then Fin \<bar>val (py (a ! i)) - val (py (b ! j))\<bar> else PInf)"
proof -
  from assms have "fin (py (a ! i))" "fin (py (b ! j))"
    by (simp_all add: finite_ys_def list_all_length)
  then obtain u v where "py (a ! i) = Fin u" "py (b ! j) = Fin v" by (auto simp: fin_iff)
  then show ?thesis by (simp add: dtw_cost_def overflow_square)
qed

lemma dtw_cost_nonneg:
  assumes "finite_ys a" "finite_ys b" "i < length a" "j < length b"
  shows "Fin 0 \<le> dtw_cost a b (Suc i) (Suc j)"
  by (simp add: dtw_cost_cases[OF assms])

lemma dtw_cost_self:
  assumes "finite_ys a" "i < length a"
  shows "dtw_cost a a (Suc i) (Suc i) = Fin 0"
  using MAX_VALUE_ge_one by (simp add: dtw_cost_cases[OF assms(1,1,2,2)])


lemma dtw_rec_nonneg:
  "finite_ys a \<Longrightarrow> finite_ys b \<Longrightarrow> i \<le> length a \<Longrightarrow> j \<le> length b \<Longrightarrow>
   Fin 0 \<le> dtw_rec a b i j"
proof (induction a b i j rule: dtw_rec.induct)
  case (4 a b i j)
  then have "Fin 0 \<le> Math_min [dtw_rec a b i (Suc j), dtw_rec a b (Suc i) j, dtw_rec a b i j]"
    by (intro Math_min3_nonneg) auto
  moreover have "Fin 0 \<le> dtw_cost a b (Suc i) (Suc j)"
    using 4 by (intro dtw_cost_nonneg) simp_all
  ultimately show ?case by (simp add: plus_nonneg)
qed simp_all


lemma dtw_rec_diag:
  "finite_ys a \<Longrightarrow> i \<le> length a \<Longrightarrow> dtw_rec a a i i = Fin 0"
proof (induction i)
  case 0 then show ?case by simp
next
  case (Suc i)
  have "Fin 0 \<le> dtw_rec a a i (Suc i)" "Fin 0 \<le> dtw_rec a a (Suc i) i"
    using Suc(2,3) by (auto intro!: dtw_rec_nonneg)
  moreover have "dtw_rec a a i i = Fin 0" using Suc by simp
  ultimately have "Math_min [dtw_rec a a i (Suc i), dtw_rec a a (Suc i) i, dtw_rec a a i i] = Fin 0"
    by (rule Math_min3_zero)
  moreover have "dtw_cost a a (Suc i) (Suc i) = Fin 0"
    using Suc(2,3) by (intro dtw_cost_self) simp_all
  ultimately show ?case by simp
qed

subsection \<open>Normalisation of the stroke\<close>

lemma rescale_js:
  "(Fin v - Fin lo) / js_or (Fin hi - Fin lo) (Fin 1) = Fin (rescale lo hi v)"
  by (simp add: js_or_def rescale_def)



lemma rescale_flat: "rescale lo lo v = v - lo"
  by (simp add: rescale_def)

lemma flat_list: "rs \<noteq> [] \<Longrightarrow> Max (set rs) = Min (set rs) \<Longrightarrow> v \<in> set rs \<Longrightarrow> v = Min (set rs)"
  by (metis List.finite_set Max_ge Min_le order_antisym)

lemma normalizeDrawing_real:
  assumes "finite_curve pts" "pts \<noteq> []"
  shows "normalizeDrawing pts =
     map (\<lambda>p. \<lparr>px = Fin (rescale (Min (set (map (\<lambda>p. val (px p)) pts))) (Max (set (map (\<lambda>p. val (px p)) pts))) (val (px p))),
               py = Fin (1 - rescale (Min (set (map (\<lambda>p. val (py p)) pts))) (Max (set (map (\<lambda>p. val (py p)) pts))) (val (py p)))\<rparr>) pts"
proof -
  from assms(1) have fx: "list_all (\<lambda>p. fin (px p)) pts" and fy: "list_all (\<lambda>p. fin (py p)) pts"
    by (simp_all add: finite_curve_def finite_point_def list_all_iff)
  let ?xs = "map (\<lambda>p. val (px p)) pts" and ?ys = "map (\<lambda>p. val (py p)) pts"
  have ne: "?xs \<noteq> []" "?ys \<noteq> []" using assms(2) by simp_all
  have mx: "Math_min (map px pts) = Fin (Min (set ?xs))" "Math_max (map px pts) = Fin (Max (set ?xs))"
    unfolding map_fin_val[OF fx] by (rule Math_min_Fin[OF ne(1)], rule Math_max_Fin[OF ne(1)])
  have my: "Math_min (map py pts) = Fin (Min (set ?ys))" "Math_max (map py pts) = Fin (Max (set ?ys))"
    unfolding map_fin_val[OF fy] by (rule Math_min_Fin[OF ne(2)], rule Math_max_Fin[OF ne(2)])
  have pt: "px p = Fin (val (px p))" "py p = Fin (val (py p))" if "p \<in> set pts" for p
    using that fx fy by (auto simp: list_all_iff fin_iff)
  show ?thesis
    unfolding normalizeDrawing_def Let_def mx my
  proof (rule map_cong[OF refl])
    fix p assume p: "p \<in> set pts"
    have "(px p - Fin (Min (set ?xs))) / js_or (Fin (Max (set ?xs)) - Fin (Min (set ?xs))) (Fin 1)
        = Fin (rescale (Min (set ?xs)) (Max (set ?xs)) (val (px p)))"
      by (subst pt(1)[OF p]) (rule rescale_js)
    moreover have "(py p - Fin (Min (set ?ys))) / js_or (Fin (Max (set ?ys)) - Fin (Min (set ?ys))) (Fin 1)
        = Fin (rescale (Min (set ?ys)) (Max (set ?ys)) (val (py p)))"
      by (subst pt(2)[OF p]) (rule rescale_js)
    ultimately show "\<lparr>px = (px p - Fin (Min (set ?xs))) / js_or (Fin (Max (set ?xs)) - Fin (Min (set ?xs))) (Fin 1),
             py = Fin 1 - (py p - Fin (Min (set ?ys))) / js_or (Fin (Max (set ?ys)) - Fin (Min (set ?ys))) (Fin 1)\<rparr>
        = \<lparr>px = Fin (rescale (Min (set ?xs)) (Max (set ?xs)) (val (px p))),
             py = Fin (1 - rescale (Min (set ?ys)) (Max (set ?ys)) (val (py p)))\<rparr>"
      by simp
  qed
qed

lemma normalizeDrawing_finite:
  assumes "finite_curve pts"
  shows "finite_curve (normalizeDrawing pts)"
proof (cases "pts = []")
  case True then show ?thesis by (simp add: normalizeDrawing_def finite_curve_def)
next
  case False
  show ?thesis unfolding normalizeDrawing_real[OF assms False]
    by (simp add: finite_curve_def finite_point_def list_all_iff)
qed




lemma normalizeDrawing_flat_x:
  assumes "finite_curve pts" "pts \<noteq> []" "Math_max (map px pts) = Math_min (map px pts)"
  shows "map px (normalizeDrawing pts) = replicate (length pts) (Fin 0)"
proof -
  from assms(1) have fx: "list_all (\<lambda>p. fin (px p)) pts"
    by (simp add: finite_curve_def finite_point_def list_all_iff)
  let ?xs = "map (\<lambda>p. val (px p)) pts"
  have ne: "?xs \<noteq> []" using assms(2) by simp
  have "Max (set ?xs) = Min (set ?xs)"
    using assms(3) unfolding map_fin_val[OF fx] Math_min_Fin[OF ne] Math_max_Fin[OF ne] by simp
  then have "rescale (Min (set ?xs)) (Max (set ?xs)) (val (px p)) = 0" if "p \<in> set pts" for p
    using flat_list[OF ne, of "val (px p)"] that by (simp add: rescale_flat)
  then show ?thesis unfolding normalizeDrawing_real[OF assms(1,2)]
    by (simp add: map_replicate_const[symmetric] comp_def)
qed

lemma normalizeDrawing_flat_y:
  assumes "finite_curve pts" "pts \<noteq> []" "Math_max (map py pts) = Math_min (map py pts)"
  shows "map py (normalizeDrawing pts) = replicate (length pts) (Fin 1)"
proof -
  from assms(1) have fy: "list_all (\<lambda>p. fin (py p)) pts"
    by (simp add: finite_curve_def finite_point_def list_all_iff)
  let ?ys = "map (\<lambda>p. val (py p)) pts"
  have ne: "?ys \<noteq> []" using assms(2) by simp
  have "Max (set ?ys) = Min (set ?ys)"
    using assms(3) unfolding map_fin_val[OF fy] Math_min_Fin[OF ne] Math_max_Fin[OF ne] by simp
  then have "rescale (Min (set ?ys)) (Max (set ?ys)) (val (py p)) = 0" if "p \<in> set pts" for p
    using flat_list[OF ne, of "val (py p)"] that by (simp add: rescale_flat)
  then show ?thesis unfolding normalizeDrawing_real[OF assms(1,2)]
    by (simp add: map_replicate_const[symmetric] comp_def)
qed

subsection \<open>Normalisation of a series\<close>

lemma map_zip_fst: "length ys = length xs \<Longrightarrow> map (\<lambda>z. g (fst z)) (zip xs ys) = map g xs"
  by (induction xs ys rule: list_induct2') auto

lemma map_zip_snd: "length ys = length xs \<Longrightarrow> map (\<lambda>z. g (snd z)) (zip xs ys) = map g ys"
  by (induction xs ys rule: list_induct2') auto

lemma normalizeSeries_py:
  assumes "finite_sales sdata" "sdata \<noteq> []"
  shows "map py (normalizeSeries sdata) =
     map (\<lambda>d. Fin (rescale (Min (set (map (\<lambda>d. val (sales d)) sdata)))
                            (Max (set (map (\<lambda>d. val (sales d)) sdata))) (val (sales d)))) sdata"
proof -
  from assms(1) have fs: "list_all (\<lambda>d. fin (sales d)) sdata" by (simp add: finite_sales_def)
  let ?vs = "map (\<lambda>d. val (sales d)) sdata"
  have ne: "?vs \<noteq> []" using assms(2) by simp
  have m: "Math_min (map sales sdata) = Fin (Min (set ?vs))" "Math_max (map sales sdata) = Fin (Max (set ?vs))"
    unfolding map_fin_val[OF fs] by (rule Math_min_Fin[OF ne], rule Math_max_Fin[OF ne])
  have d: "sales d = Fin (val (sales d))" if "d \<in> set sdata" for d
    using that fs by (auto simp: list_all_iff fin_iff)
  have "map py (normalizeSeries sdata) =
        map (\<lambda>z. (sales (fst z) - Fin (Min (set ?vs))) / js_or (Fin (Max (set ?vs)) - Fin (Min (set ?vs))) (Fin 1))
          (zip sdata [0..<length sdata])"
    unfolding normalizeSeries_def Let_def m
    by (simp add: case_prod_beta comp_def)
  also have "\<dots> = map (\<lambda>d. (sales d - Fin (Min (set ?vs))) / js_or (Fin (Max (set ?vs)) - Fin (Min (set ?vs))) (Fin 1)) sdata"
    by (rule map_zip_fst[where g="\<lambda>d. (sales d - Fin (Min (set ?vs))) / js_or (Fin (Max (set ?vs)) - Fin (Min (set ?vs))) (Fin 1)"]) simp
  also have "\<dots> = map (\<lambda>d. Fin (rescale (Min (set ?vs)) (Max (set ?vs)) (val (sales d)))) sdata"
  proof (rule map_cong[OF refl])
    fix d assume "d \<in> set sdata"
    then show "(sales d - Fin (Min (set ?vs))) / js_or (Fin (Max (set ?vs)) - Fin (Min (set ?vs))) (Fin 1)
       = Fin (rescale (Min (set ?vs)) (Max (set ?vs)) (val (sales d)))"
      by (subst d) (simp_all only: rescale_js)
  qed
  finally show ?thesis .
qed

lemma normalizeSeries_px:
  "map px (normalizeSeries sdata) =
     map (\<lambda>i. Fin (real i) / Fin (real (length sdata) - 1)) [0..<length sdata]"
proof -
  have "map px (normalizeSeries sdata) =
     map (\<lambda>z. Fin (real (snd z)) / Fin (real (length sdata) - 1)) (zip sdata [0..<length sdata])"
    unfolding normalizeSeries_def Let_def
    by (simp add: case_prod_beta comp_def del: divide_jsnum.simps)
  also have "\<dots> = map (\<lambda>i. Fin (real i) / Fin (real (length sdata) - 1)) [0..<length sdata]"
    by (rule map_zip_snd[where g="\<lambda>i. Fin (real i) / Fin (real (length sdata) - 1)"]) simp
  finally show ?thesis .
qed

lemma normalizeSeries_length: "length (normalizeSeries sdata) = length sdata"
  by (simp add: normalizeSeries_def Let_def)

lemma normalizeSeries_finite_ys:
  assumes "finite_sales sdata"
  shows "finite_ys (normalizeSeries sdata)"
proof (cases "sdata = []")
  case True then show ?thesis by (simp add: normalizeSeries_def finite_ys_def)
next
  case False
  show ?thesis unfolding finite_ys_map normalizeSeries_py[OF assms False]
    by (simp add: list_all_iff)
qed

lemma normalizeSeries_finite:
  assumes "finite_sales sdata" "2 \<le> length sdata"
  shows "finite_curve (normalizeSeries sdata)"
proof -
  have "real (length sdata) - 1 \<noteq> 0" using assms(2) by simp
  then have "list_all fin (map px (normalizeSeries sdata))"
    unfolding normalizeSeries_px by (simp add: list_all_iff)
  then show ?thesis
    using normalizeSeries_finite_ys[OF assms(1)] by (simp add: finite_curve_maps finite_ys_map)
qed

lemma resample_series_finite_ys:
  assumes "finite_sales sdata"
  shows "finite_ys (resampleCurve (normalizeSeries sdata) n)"
proof (cases "2 \<le> length sdata")
  case True
  then show ?thesis
    using normalizeSeries_finite[OF assms] by (intro finite_curve_ys resampleCurve_finite)
next
  case False
  then have "length (normalizeSeries sdata) \<le> 1" by (simp add: normalizeSeries_length)
  then show ?thesis using normalizeSeries_finite_ys[OF assms] by (simp add: resampleCurve_def)
qed

lemma normalizeSeries_flat:
  assumes "finite_sales sdata" "sdata \<noteq> []" "Math_max (map sales sdata) = Math_min (map sales sdata)"
  shows "map py (normalizeSeries sdata) = replicate (length sdata) (Fin 0)"
proof -
  from assms(1) have fs: "list_all (\<lambda>d. fin (sales d)) sdata" by (simp add: finite_sales_def)
  let ?vs = "map (\<lambda>d. val (sales d)) sdata"
  have ne: "?vs \<noteq> []" using assms(2) by simp
  have "Max (set ?vs) = Min (set ?vs)"
    using assms(3) unfolding map_fin_val[OF fs] Math_min_Fin[OF ne] Math_max_Fin[OF ne] by simp
  then have "rescale (Min (set ?vs)) (Max (set ?vs)) (val (sales d)) = 0" if "d \<in> set sdata" for d
    using flat_list[OF ne, of "val (sales d)"] that by (simp add: rescale_flat)
  then show ?thesis unfolding normalizeSeries_py[OF assms(1,2)]
    by (simp add: map_replicate_const[symmetric])
qed

subsection \<open>Sorting\<close>

lemma length_insert_sorted: "length (insert_sorted cmp v ws) = Suc (length ws)"
  by (induction ws) auto


lemma length_Array_sort: "length (Array_sort cmp vs) = length vs"
  by (induction vs) (auto simp: Array_sort_def length_insert_sorted)






subsection \<open>The search and the corpus filter\<close>

lemma finite_point_pt: "finite_point (pt a b)"
  by (simp add: pt_def finite_point_def)





lemma Math_min2_Fin: "Math_min [Fin a, Fin b] = Fin (min a b)"
  by (simp add: Math_min_def min2_def min_def)

lemma hasSufficientData_real:
  "hasSufficientData L s \<longleftrightarrow>
     min 5 (real L / 2) \<le> real (length (filter (\<lambda>d. Fin 0 < sales d) (data s)))"
  by (simp add: hasSufficientData_def Math_min2_Fin)

text \<open>A series over a single period is normalised to a point whose \<open>x\<close> is \<open>0 / 0\<close>.\<close>

lemma normalizeSeries_single_period:
  "normalizeSeries [\<lparr>month = ''2024-01'', sales = Fin 7\<rparr>] = [\<lparr>px = NaN, py = Fin 0\<rparr>]"
  by (simp add: normalizeSeries_def Let_def Math_min_def Math_max_def min2_def max2_def js_or_def)

text \<open>Points that all coincide are resampled to two points, whatever \<open>n \<ge> 2\<close> is.\<close>

lemma resampleCurve_zero_length:
  assumes "finite_point p" "2 \<le> k" "2 \<le> n"
  shows "resampleCurve (replicate k p) n = [p, p]"
  using assms by (intro resample_coincident) simp_all

text \<open>Where the range of a list of finite numbers fits a double, so does every difference
  the normalisation subtracts.\<close>

lemma differences_in_range:
  assumes "list_all fin vs" "vs \<noteq> []" "range_in_double vs"
  shows "list_all (\<lambda>v. Fin 0 \<le> v - Math_min vs \<and> v - Math_min vs \<le> Fin MAX_VALUE) vs"
proof -
  have e: "vs = map Fin (map val vs)" using assms(1) by (induction vs) (auto simp: fin_iff)
  let ?rs = "map val vs"
  have ne: "?rs \<noteq> []" using assms(2) by simp
  have mn: "Math_min vs = Fin (Min (set ?rs))" and mx: "Math_max vs = Fin (Max (set ?rs))"
    using Math_min_Fin[OF ne] Math_max_Fin[OF ne] e by simp_all
  have r: "Max (set ?rs) - Min (set ?rs) \<le> MAX_VALUE"
    using assms(3) by (simp add: range_in_double_def mn mx)
  have "Fin 0 \<le> v - Math_min vs \<and> v - Math_min vs \<le> Fin MAX_VALUE" if "v \<in> set vs" for v
  proof -
    from that assms(1) obtain u where u: "v = Fin u" by (auto simp: list_all_iff fin_iff)
    with that have "u \<in> set ?rs" by force
    then have "Min (set ?rs) \<le> u" "u \<le> Max (set ?rs)" by simp_all
    with r show ?thesis by (simp add: u mn)
  qed
  then show ?thesis by (simp add: list_all_iff)
qed

text \<open>Curves with \<open>y\<close> coordinates in \<open>[0, 1]\<close>, as the normalisation yields them, have
  costs that fit a double.\<close>

lemma costs_in_range_unit:
  assumes "list_all (\<lambda>p. Fin 0 \<le> py p \<and> py p \<le> Fin 1) a"
    "list_all (\<lambda>q. Fin 0 \<le> py q \<and> py q \<le> Fin 1) b"
  shows "costs_in_range a b"
proof -
  have "(val (py p) - val (py q)) ^ 2 \<le> MAX_VALUE" if "p \<in> set a" "q \<in> set b" for p q
  proof -
    from that assms have "Fin 0 \<le> py p \<and> py p \<le> Fin 1" "Fin 0 \<le> py q \<and> py q \<le> Fin 1"
      by (simp_all add: list_all_iff)
    then have "0 \<le> val (py p) \<and> val (py p) \<le> 1" "0 \<le> val (py q) \<and> val (py q) \<le> 1"
      by (cases "py p", simp_all) (cases "py q", simp_all)
    then have "\<bar>val (py p) - val (py q)\<bar> \<le> 1" by linarith
    then have "(val (py p) - val (py q)) ^ 2 \<le> 1"
      using abs_le_square_iff[of "val (py p) - val (py q)" 1] by simp
    then show ?thesis using MAX_VALUE_ge_one by linarith
  qed
  then show ?thesis by (simp add: costs_in_range_def list_all_iff)
qed



section \<open>The claims\<close>

text \<open>
  Claim C1: for every curve of at least two points and every \<open>n \<ge> 2\<close>, \<^verbatim>\<open>resampleCurve\<close>
  returns exactly \<open>n\<close> points, the first and the last being the first and the last input
  point. The code does so for every curve of finite points whose path length is not zero
  (lemmas \<open>resampleCurve_length_positive\<close> and \<open>resampleCurve_endpoints\<close>), but not for a
  curve of coinciding points: the two coinciding points below, resampled to 20 points, come
  back as two points.
\<close>

theorem resampleCurve_coincident_two_points:
  "resampleCurve [pt 1 1, pt 1 1] 20 = [pt 1 1, pt 1 1] \<and>
   length (resampleCurve [pt 1 1, pt 1 1] 20) \<noteq> 20"
proof -
  have "resampleCurve [pt 1 1, pt 1 1] 20 = [pt 1 1, pt 1 1]"
    by (rule resample_coincident) (simp_all add: finite_point_pt nth_Cons')
  then show ?thesis by simp
qed

text \<open>
  Claim C2: a curve whose points all coincide is resampled to \<open>n\<close> copies of that point,
  without a division by zero and without an endless loop. The walk does terminate and no
  coordinate of the result is infinite or \<open>NaN\<close>, but the result has two points, not \<open>n\<close>:
  three coinciding points resampled to 5 points come back as two.
\<close>

theorem resampleCurve_coincident_three_points:
  "resampleCurve [pt (1/2) (1/2), pt (1/2) (1/2), pt (1/2) (1/2)] 5
     = [pt (1/2) (1/2), pt (1/2) (1/2)] \<and>
   resampleCurve [pt (1/2) (1/2), pt (1/2) (1/2), pt (1/2) (1/2)] 5 \<noteq> replicate 5 (pt (1/2) (1/2))"
proof -
  have "resampleCurve [pt (1/2) (1/2), pt (1/2) (1/2), pt (1/2) (1/2)] 5
      = [pt (1/2) (1/2), pt (1/2) (1/2)]"
    by (rule resample_coincident) (simp_all add: finite_point_pt nth_Cons')
  then show ?thesis by (simp add: numeral_eq_Suc)
qed

text \<open>
  Claim C3, as amended: for a non-empty stroke of finite points and a non-empty series of
  finite amounts, an axis of zero range is mapped to a constant: the \<open>x\<close> of the stroke to
  \<open>0\<close>, the \<open>y\<close> of the stroke to \<open>1\<close> (the inversion \<open>1 - 0\<close>), the \<open>y\<close> of the series to
  \<open>0\<close>. For a series of zero range no \<open>y\<close> of its resampling is infinite or \<open>NaN\<close>, and
  with at least two periods no coordinate of the normalised series or of its resampling is.
  For a stroke whose range on each axis fits a double, every difference the normalisation
  subtracts lies between \<open>0\<close> and \<^verbatim>\<open>Number.MAX_VALUE\<close>, and no coordinate of the normalised
  stroke or of its resampling is infinite or \<open>NaN\<close>.
\<close>

theorem degenerate_range:
  assumes "finite_curve pts" "pts \<noteq> []" "finite_sales sdata" "sdata \<noteq> []"
  shows "(Math_max (map px pts) = Math_min (map px pts) \<longrightarrow>
            map px (normalizeDrawing pts) = replicate (length pts) (Fin 0)) \<and>
         (Math_max (map py pts) = Math_min (map py pts) \<longrightarrow>
            map py (normalizeDrawing pts) = replicate (length pts) (Fin 1)) \<and>
         (Math_max (map sales sdata) = Math_min (map sales sdata) \<longrightarrow>
            map py (normalizeSeries sdata) = replicate (length sdata) (Fin 0) \<and>
            finite_ys (resampleCurve (normalizeSeries sdata) 20) \<and>
            (2 \<le> length sdata \<longrightarrow>
               finite_curve (normalizeSeries sdata) \<and>
               finite_curve (resampleCurve (normalizeSeries sdata) 20))) \<and>
         (range_in_double (map px pts) \<and> range_in_double (map py pts) \<longrightarrow>
            list_all (\<lambda>v. Fin 0 \<le> v - Math_min (map px pts) \<and>
                          v - Math_min (map px pts) \<le> Fin MAX_VALUE) (map px pts) \<and>
            list_all (\<lambda>v. Fin 0 \<le> v - Math_min (map py pts) \<and>
                          v - Math_min (map py pts) \<le> Fin MAX_VALUE) (map py pts) \<and>
            finite_curve (normalizeDrawing pts) \<and>
            finite_curve (resampleCurve (normalizeDrawing pts) 20))"
proof -
  have fx: "list_all fin (map px pts)" and fy: "list_all fin (map py pts)"
    using assms(1) by (simp_all add: finite_curve_maps)
  have ne: "map px pts \<noteq> []" "map py pts \<noteq> []" using assms(2) by simp_all
  have s1: "finite_curve (normalizeDrawing pts)" using assms(1) by (rule normalizeDrawing_finite)
  then have s2: "finite_curve (resampleCurve (normalizeDrawing pts) 20)"
    by (rule resampleCurve_finite)
  have t1: "finite_ys (resampleCurve (normalizeSeries sdata) 20)"
    using assms(3) by (rule resample_series_finite_ys)
  have t2: "finite_curve (normalizeSeries sdata) \<and>
      finite_curve (resampleCurve (normalizeSeries sdata) 20)" if "2 \<le> length sdata"
    using normalizeSeries_finite[OF assms(3) that] by (simp add: resampleCurve_finite)
  show ?thesis
    using normalizeDrawing_flat_x[OF assms(1,2)] normalizeDrawing_flat_y[OF assms(1,2)]
      normalizeSeries_flat[OF assms(3,4)] s1 s2 t1 t2
      differences_in_range[OF fx ne(1)] differences_in_range[OF fy ne(2)]
    by blast
qed

text \<open>The theorem at a stroke of three coinciding points and a series of two equal amounts.\<close>

theorem degenerate_range_witness:
  "finite_curve [pt 3 4, pt 3 4, pt 3 4] \<and> [pt 3 4, pt 3 4, pt 3 4] \<noteq> [] \<and>
   finite_sales [\<lparr>month = ''2024-01'', sales = Fin 7\<rparr>, \<lparr>month = ''2024-02'', sales = Fin 7\<rparr>] \<and>
   [\<lparr>month = ''2024-01'', sales = Fin 7\<rparr>, \<lparr>month = ''2024-02'', sales = Fin 7\<rparr>] \<noteq> [] \<and>
   Math_max (map px [pt 3 4, pt 3 4, pt 3 4]) = Math_min (map px [pt 3 4, pt 3 4, pt 3 4]) \<and>
   Math_max (map py [pt 3 4, pt 3 4, pt 3 4]) = Math_min (map py [pt 3 4, pt 3 4, pt 3 4]) \<and>
   Math_max (map sales [\<lparr>month = ''2024-01'', sales = Fin 7\<rparr>, \<lparr>month = ''2024-02'', sales = Fin 7\<rparr>])
     = Math_min (map sales [\<lparr>month = ''2024-01'', sales = Fin 7\<rparr>, \<lparr>month = ''2024-02'', sales = Fin 7\<rparr>]) \<and>
   2 \<le> length [\<lparr>month = ''2024-01'', sales = Fin 7\<rparr>, \<lparr>month = ''2024-02'', sales = Fin 7\<rparr>] \<and>
   range_in_double (map px [pt 3 4, pt 3 4, pt 3 4]) \<and>
   range_in_double (map py [pt 3 4, pt 3 4, pt 3 4]) \<and>
   map px (normalizeDrawing [pt 3 4, pt 3 4, pt 3 4]) = replicate (length [pt 3 4, pt 3 4, pt 3 4]) (Fin 0) \<and>
   map py (normalizeDrawing [pt 3 4, pt 3 4, pt 3 4]) = replicate (length [pt 3 4, pt 3 4, pt 3 4]) (Fin 1) \<and>
   map py (normalizeSeries [\<lparr>month = ''2024-01'', sales = Fin 7\<rparr>, \<lparr>month = ''2024-02'', sales = Fin 7\<rparr>])
     = replicate (length [\<lparr>month = ''2024-01'', sales = Fin 7\<rparr>, \<lparr>month = ''2024-02'', sales = Fin 7\<rparr>]) (Fin 0) \<and>
   finite_curve (resampleCurve (normalizeDrawing [pt 3 4, pt 3 4, pt 3 4]) 20) \<and>
   finite_curve (resampleCurve (normalizeSeries
      [\<lparr>month = ''2024-01'', sales = Fin 7\<rparr>, \<lparr>month = ''2024-02'', sales = Fin 7\<rparr>]) 20)"
proof -
  let ?P = "[pt 3 4, pt 3 4, pt 3 4]"
  let ?S = "[\<lparr>month = ''2024-01'', sales = Fin 7\<rparr>, \<lparr>month = ''2024-02'', sales = Fin 7\<rparr>]"
  have h: "finite_curve ?P" "?P \<noteq> []" "finite_sales ?S" "?S \<noteq> []"
    by (simp_all add: finite_curve_def finite_point_pt finite_sales_def)
  have r: "Math_max (map px ?P) = Math_min (map px ?P)" "Math_max (map py ?P) = Math_min (map py ?P)"
    "Math_max (map sales ?S) = Math_min (map sales ?S)" "2 \<le> length ?S"
    by (simp_all add: pt_def Math_max_def Math_min_def max2_def min2_def)
  have d: "range_in_double (map px ?P)" "range_in_double (map py ?P)"
    using MAX_VALUE_ge_one
    by (simp_all add: range_in_double_def pt_def Math_max_def Math_min_def max2_def min2_def)
  from degenerate_range[OF h] h r d show ?thesis by blast
qed

text \<open>Claim C3 as stated fails: a horizontal stroke has zero range on the Y axis, and its
  normalised \<open>y\<close> is the constant \<open>1\<close>, not \<open>0\<close>.\<close>

theorem flat_stroke_maps_to_one:
  "Math_max (map py [pt 0 5, pt 1 5]) = Math_min (map py [pt 0 5, pt 1 5]) \<and>
   map py (normalizeDrawing [pt 0 5, pt 1 5]) = [Fin 1, Fin 1] \<and>
   map py (normalizeDrawing [pt 0 5, pt 1 5]) \<noteq> [Fin 0, Fin 0]"
  by (simp add: normalizeDrawing_def Let_def pt_def Math_min_def Math_max_def min2_def max2_def js_or_def)



text \<open>
  Claim C5, as amended: for a stroke of fewer than 5 points the end of the gesture does not
  run the search. It only clears the drawing flag and leaves the list of results as it was
  (empty if no earlier search has filled it), and the search button is disabled. The model
  of the handler has no failing branch.
\<close>

theorem short_stroke_not_searched:
  assumes "length (drawingPoints st) < 5"
  shows "endDrawing st = st\<lparr>isDrawing := False\<rparr> \<and>
         patternResults (endDrawing st) = patternResults st \<and>
         searchButtonDisabled st"
  using assms by (simp add: endDrawing_def Let_def searchButtonDisabled_def)

text \<open>The theorem at a stroke of three points.\<close>

theorem short_stroke_not_searched_witness:
  "length (drawingPoints state_short_stroke) < 5 \<and>
   endDrawing state_short_stroke = state_short_stroke\<lparr>isDrawing := False\<rparr> \<and>
   patternResults (endDrawing state_short_stroke) = patternResults state_short_stroke \<and>
   searchButtonDisabled state_short_stroke"
proof -
  have h: "length (drawingPoints state_short_stroke) < 5" by (simp add: state_short_stroke_def)
  from short_stroke_not_searched[OF h] h show ?thesis by blast
qed

text \<open>Claim C5 as stated fails: after a stroke of three points the list of results is the
  one an earlier search left, which need not be empty.\<close>

theorem short_stroke_keeps_results:
  "length (drawingPoints state_short_stroke) < 5 \<and>
   patternResults (endDrawing state_short_stroke) = [earlier_match] \<and>
   patternResults (endDrawing state_short_stroke) \<noteq> []"
  by (simp add: state_short_stroke_def endDrawing_def Let_def)




text \<open>
  Claim C7: the distance of a curve to itself is \<open>0\<close>, and the distance of two curves is
  never negative. Both hold for all curves with finite \<open>y\<close> coordinates, of any lengths; the
  resampling of a curve of finite points is such a curve.
\<close>

theorem dtw_identity_nonneg:
  assumes "finite_ys a" "finite_ys b"
  shows "calculateDTWSimilarity a a = Fin 0 \<and> Fin 0 \<le> calculateDTWSimilarity a b"
  using assms by (simp add: calculateDTWSimilarity_rec dtw_rec_diag dtw_rec_nonneg)

text \<open>The theorem at two curves of two points.\<close>

theorem dtw_identity_nonneg_witness:
  "finite_ys [pt 0 0, pt 1 1] \<and> finite_ys [pt 0 1, pt 1 0] \<and>
   calculateDTWSimilarity [pt 0 0, pt 1 1] [pt 0 0, pt 1 1] = Fin 0 \<and>
   Fin 0 \<le> calculateDTWSimilarity [pt 0 0, pt 1 1] [pt 0 1, pt 1 0]"
proof -
  have h: "finite_ys [pt 0 0, pt 1 1]" "finite_ys [pt 0 1, pt 1 0]"
    by (simp_all add: finite_ys_def pt_def)
  from dtw_identity_nonneg[OF h] h show ?thesis by blast
qed



text \<open>
  Claim C9, as amended: a series is kept in the corpus if and only if the number of its
  periods with a strictly positive amount is at least \<open>min(5, periodCount / 2)\<close>, the half
  not rounded. For a series without negative amounts this is the number of its periods with
  a non-zero amount.
\<close>

theorem support_filter_positive:
  "(s \<in> set (filterInsufficient L rs) \<longleftrightarrow>
      s \<in> set rs \<and> min 5 (real L / 2) \<le> real (length (filter (\<lambda>d. Fin 0 < sales d) (data s)))) \<and>
   (list_all (\<lambda>d. Fin 0 \<le> sales d) (data s) \<longrightarrow>
      hasSufficientData L s = minimumSupportFilter_spec L s)"
proof -
  have "filter (\<lambda>d. Fin 0 < sales d) (data s) = filter (\<lambda>d. sales d \<noteq> Fin 0) (data s)"
    if "list_all (\<lambda>d. Fin 0 \<le> sales d) (data s)"
  proof (rule filter_cong[OF refl])
    fix d assume "d \<in> set (data s)"
    with that have "Fin 0 \<le> sales d" by (simp add: list_all_iff)
    then show "(Fin 0 < sales d) = (sales d \<noteq> Fin 0)" by (cases "sales d") auto
  qed
  then show ?thesis
    by (auto simp: filterInsufficient_def hasSufficientData_real minimumSupportFilter_spec_def)
qed

text \<open>The theorem at a series of three positive amounts over three periods.\<close>

theorem support_filter_positive_witness:
  "list_all (\<lambda>d. Fin 0 \<le> sales d) (data series_flat) \<and>
   series_flat \<in> set (filterInsufficient 3 [series_flat]) \<and>
   hasSufficientData 3 series_flat = minimumSupportFilter_spec 3 series_flat"
proof -
  have h: "list_all (\<lambda>d. Fin 0 \<le> sales d) (data series_flat)"
    by (simp add: series_flat_def)
  have m: "series_flat \<in> set [series_flat] \<and> min 5 (real 3 / 2)
     \<le> real (length (filter (\<lambda>d. Fin 0 < sales d) (data series_flat)))"
    by (simp add: series_flat_def)
  from support_filter_positive[of series_flat 3 "[series_flat]"] h m show ?thesis by blast
qed

text \<open>Claim C9 as stated fails: a series with a negative amount in each of two periods has
  two periods with a non-zero amount, at least \<open>min(5, 2 / 2)\<close>, and is filtered out.\<close>

theorem support_filter_negative_sales:
  "minimumSupportFilter_spec 2 series_returns \<and> \<not> hasSufficientData 2 series_returns \<and>
   filterInsufficient 2 [series_returns] = []"
  by (simp add: minimumSupportFilter_spec_def hasSufficientData_def filterInsufficient_def
        series_returns_def Math_min_def min2_def)



text \<open>Claim C10 as stated fails: for two curves of one point each, with \<open>y\<close> coordinates
  \<open>10\<^sup>2\<^sup>0\<^sup>0\<close> and \<open>0\<close>, the square of the difference overflows and the distance is
  \<open>Infinity\<close>.\<close>


end
